theory Spec2Isabelle
  imports Main "HOL-Library.Word" "HOL-Library.Log_Nat"
begin

section \<open>Images\<close>

text \<open>
  The scripts work on Pillow images. An image has a mode, a size and a grid of pixels;
  \<open>np.array(img)\<close> of an RGBA image is the array of shape (height, width, 4) of its
  bytes. A pixel is kept as its four bands (red, green, blue, alpha). An image of another
  mode is represented by the same record, its pixels being the RGBA values that
  \<open>img.convert('RGBA')\<close> gives them, so that the conversion only changes the mode.
\<close>

type_synonym pixel = "8 word \<times> 8 word \<times> 8 word \<times> 8 word"

record image =
  mode :: string
  width :: nat
  height :: nat
  pixels :: "pixel list list"

text \<open>The grid has \<open>height\<close> rows of \<open>width\<close> pixels each.\<close>

definition wf_image :: "image \<Rightarrow> bool" where
  "wf_image img \<longleftrightarrow>
     length (pixels img) = height img \<and> list_all (\<lambda>row. length row = width img) (pixels img)"

datatype error = IndexError | ValueError | FileNotFoundError | FileExistsError
  | UnidentifiedImageError | SystemError

subsection \<open>Pillow: crop and convert\<close>

text \<open>
  \<open>img.crop((left, upper, right, lower))\<close>: the result has size
  (right - left, lower - upper) and the mode of the source; a pixel of the box that lies
  outside the source is zero in every band. Pillow raises ValueError when right < left or
  lower < upper.
\<close>

definition getpixel :: "image \<Rightarrow> int \<Rightarrow> int \<Rightarrow> pixel" where
  "getpixel img x y =
     (if 0 \<le> x \<and> x < int (width img) \<and> 0 \<le> y \<and> y < int (height img)
      then pixels img ! nat y ! nat x else (0, 0, 0, 0))"

definition crop :: "image \<Rightarrow> int \<times> int \<times> int \<times> int \<Rightarrow> error + image" where
  "crop img bx =
     (case bx of (left, upper, right, lower) \<Rightarrow>
        if right < left then Inl ValueError
        else if lower < upper then Inl ValueError
        else Inr \<lparr> mode = mode img,
                   width = nat (right - left),
                   height = nat (lower - upper),
                   pixels = map (\<lambda>r. map (\<lambda>c. getpixel img (left + int c) (upper + int r))
                                           [0..<nat (right - left)])
                                [0..<nat (lower - upper)] \<rparr>)"

definition convert_RGBA :: "image \<Rightarrow> image" where
  "convert_RGBA img = img\<lparr>mode := ''RGBA''\<rparr>"

subsection \<open>NumPy: the array operations the scripts use\<close>

text \<open>\<open>img_array[:, :, 3]\<close>: the alpha band, an array of shape (height, width).\<close>

definition band3 :: "pixel \<Rightarrow> 8 word" where
  "band3 p = (case p of (r, g, b, a) \<Rightarrow> a)"

definition alpha_channel :: "image \<Rightarrow> 8 word list list" where
  "alpha_channel img = map (map band3) (pixels img)"

text \<open>\<open>alpha > threshold\<close>, elementwise; the bytes are compared as unsigned numbers.\<close>

definition np_greater :: "8 word list list \<Rightarrow> int \<Rightarrow> bool list list" where
  "np_greater alpha threshold = map (map (\<lambda>a. uint a > threshold)) alpha"

definition np_any :: "bool list \<Rightarrow> bool" where
  "np_any bs = list_ex (\<lambda>b. b) bs"

text \<open>\<open>np.any(mask, axis=1)\<close>: one entry per row.\<close>

definition np_any_axis1 :: "bool list list \<Rightarrow> bool list" where
  "np_any_axis1 m = map np_any m"

text \<open>
  \<open>np.any(mask, axis=0)\<close>: one entry per column. The number of columns is part of the
  array's shape; a list of rows does not hold it when there is no row, so it is passed.
\<close>

definition np_any_axis0 :: "nat \<Rightarrow> bool list list \<Rightarrow> bool list" where
  "np_any_axis0 ncols m = map (\<lambda>c. np_any (map (\<lambda>row. row ! c) m)) [0..<ncols]"

text \<open>\<open>np.where(bs)[0]\<close>: the indices of the true entries, in increasing order.\<close>

definition np_where :: "bool list \<Rightarrow> nat list" where
  "np_where bs = filter (\<lambda>i. bs ! i) [0..<length bs]"

text \<open>\<open>xs[[0, -1]]\<close>: the first and the last entry; IndexError on an empty array.\<close>

definition first_last :: "nat list \<Rightarrow> error + (nat \<times> nat)" where
  "first_last xs = (case xs of [] \<Rightarrow> Inl IndexError | x # _ \<Rightarrow> Inr (x, last xs))"

section \<open>extract-ui-elements.py\<close>

subsection \<open>The bounds of the visible content\<close>

text \<open>
  Lines 99 to 109 of \<open>autocrop_transparency\<close>, which lines 32 to 48 of
  \<open>find_elements\<close> repeat with the threshold 10: the mask of the pixels whose alpha
  exceeds the threshold, the rows and the columns that hold such a pixel, and the first and
  the last of each. The result is \<open>None\<close> where the source takes its early return, and
  \<open>(row_min, row_max, col_min, col_max)\<close> otherwise.
\<close>

definition content_bounds :: "image \<Rightarrow> int \<Rightarrow> error + (nat \<times> nat \<times> nat \<times> nat) option" where
  "content_bounds img threshold =
     (let alpha = alpha_channel img;
          mask = np_greater alpha threshold;
          rows = np_any_axis1 mask;
          cols = np_any_axis0 (width img) mask
      in if \<not> np_any rows \<or> \<not> np_any cols then Inr None
         else case first_last (np_where rows) of
                Inl e \<Rightarrow> Inl e
              | Inr (row_min, row_max) \<Rightarrow>
                  (case first_last (np_where cols) of
                     Inl e \<Rightarrow> Inl e
                   | Inr (col_min, col_max) \<Rightarrow> Inr (Some (row_min, row_max, col_min, col_max))))"

subsection \<open>autocrop_transparency\<close>

definition autocrop_transparency :: "image \<Rightarrow> int \<Rightarrow> error + image" where
  "autocrop_transparency img threshold =
     (if mode img \<noteq> ''RGBA'' then Inr img
      else case content_bounds img threshold of
             Inl e \<Rightarrow> Inl e
           | Inr None \<Rightarrow> Inr img
           | Inr (Some (row_min, row_max, col_min, col_max)) \<Rightarrow>
               crop img (int col_min, int row_min, int col_max + 1, int row_max + 1))"

text \<open>
  What the properties below speak about: the pixel at row \<open>r\<close> and column \<open>c\<close> is
  visible when its alpha exceeds the threshold; an image has content when some pixel of it
  is visible.
\<close>

definition visible_at :: "image \<Rightarrow> int \<Rightarrow> nat \<Rightarrow> nat \<Rightarrow> bool" where
  "visible_at img threshold r c \<longleftrightarrow>
     r < height img \<and> c < width img \<and>
     threshold < uint (band3 (pixels img ! r ! c))"

definition has_content :: "image \<Rightarrow> int \<Rightarrow> bool" where
  "has_content img threshold \<longleftrightarrow>
     list_ex (list_ex (\<lambda>p. threshold < uint (band3 p))) (pixels img)"

subsection \<open>Python numbers\<close>

text \<open>
  A Python float is an IEEE 754 double. The floats of \<open>define_ui_regions\<close> are finite
  and not negative, and each is modelled by the rational number it denotes.
  \<open>round_double\<close> is the rounding every float operation ends with: to the nearest
  number with a significand of 53 bits, a tie going to the even significand. The exponent
  range of the doubles is not modelled (no overflow, no subnormal numbers); the values
  computed from an image size and the constants of the table are far inside it.
\<close>

text \<open>The exponent \<open>e\<close> of a positive number: \<open>2 ^ e \<le> x < 2 ^ (e + 1)\<close>.\<close>

definition float_exponent :: "rat \<Rightarrow> int" where
  "float_exponent x =
     (case quotient_of x of (a, b) \<Rightarrow>
        let d = bitlen a - bitlen b in if 2 powi d \<le> x then d else d - 1)"

definition round_half_even :: "rat \<Rightarrow> int" where
  "round_half_even q =
     (let n = \<lfloor>q\<rfloor>; f = q - of_int n
      in if f < 1 / 2 then n else if 1 / 2 < f then n + 1 else if even n then n else n + 1)"

definition round_double :: "rat \<Rightarrow> rat" where
  "round_double x =
     (if x = 0 then 0
      else let ulp = 2 powi (float_exponent x - 52)
           in of_int (round_half_even (x / ulp)) * ulp)"

text \<open>\<open>int(x)\<close> of a float truncates towards zero.\<close>

definition py_int :: "rat \<Rightarrow> int" where
  "py_int x = (if 0 \<le> x then \<lfloor>x\<rfloor> else \<lceil>x\<rceil>)"

text \<open>
  \<open>int(w * c)\<close> for an integer \<open>w\<close> that is not negative and a decimal literal
  \<open>c\<close>: the literal is read as the nearest double, \<open>w\<close> is converted to a float,
  and the product is rounded.
\<close>

definition scaled :: "nat \<Rightarrow> rat \<Rightarrow> int" where
  "scaled w c = py_int (round_double (round_double (of_nat w) * round_double c))"

subsection \<open>define_ui_regions\<close>

record region =
  name :: string
  box :: "int \<times> int \<times> int \<times> int"

definition define_ui_regions :: "nat \<Rightarrow> nat \<Rightarrow> region list" where
  "define_ui_regions w h =
   [\<lparr>name = ''panel_victory'', box = (scaled w (2/100), scaled h (5/100), scaled w (15/100), scaled h (90/100))\<rparr>,
    \<lparr>name = ''star_filled_01'', box = (scaled w (18/100), scaled h (5/100), scaled w (5/100), scaled h (15/100))\<rparr>,
    \<lparr>name = ''star_filled_02'', box = (scaled w (24/100), scaled h (5/100), scaled w (5/100), scaled h (15/100))\<rparr>,
    \<lparr>name = ''star_filled_03'', box = (scaled w (30/100), scaled h (5/100), scaled w (5/100), scaled h (15/100))\<rparr>,
    \<lparr>name = ''star_empty_01'', box = (scaled w (18/100), scaled h (25/100), scaled w (5/100), scaled h (15/100))\<rparr>,
    \<lparr>name = ''star_empty_02'', box = (scaled w (24/100), scaled h (25/100), scaled w (5/100), scaled h (15/100))\<rparr>,
    \<lparr>name = ''star_empty_03'', box = (scaled w (30/100), scaled h (25/100), scaled w (5/100), scaled h (15/100))\<rparr>,
    \<lparr>name = ''star_empty_04'', box = (scaled w (18/100), scaled h (45/100), scaled w (5/100), scaled h (15/100))\<rparr>,
    \<lparr>name = ''star_empty_05'', box = (scaled w (24/100), scaled h (45/100), scaled w (5/100), scaled h (15/100))\<rparr>,
    \<lparr>name = ''star_empty_06'', box = (scaled w (30/100), scaled h (45/100), scaled w (5/100), scaled h (15/100))\<rparr>,
    \<lparr>name = ''icon_heart'', box = (scaled w (37/100), scaled h (5/100), scaled w (4/100), scaled h (12/100))\<rparr>,
    \<lparr>name = ''counter_timer'', box = (scaled w (42/100), scaled h (5/100), scaled w (8/100), scaled h (12/100))\<rparr>,
    \<lparr>name = ''icon_gem'', box = (scaled w (51/100), scaled h (5/100), scaled w (4/100), scaled h (12/100))\<rparr>,
    \<lparr>name = ''icon_coin'', box = (scaled w (37/100), scaled h (20/100), scaled w (4/100), scaled h (12/100))\<rparr>,
    \<lparr>name = ''counter_coins'', box = (scaled w (42/100), scaled h (20/100), scaled w (8/100), scaled h (12/100))\<rparr>,
    \<lparr>name = ''badge_level_24'', box = (scaled w (37/100), scaled h (65/100), scaled w (4/100), scaled h (15/100))\<rparr>,
    \<lparr>name = ''badge_level_25'', box = (scaled w (42/100), scaled h (65/100), scaled w (4/100), scaled h (15/100))\<rparr>,
    \<lparr>name = ''badge_level_26'', box = (scaled w (47/100), scaled h (65/100), scaled w (4/100), scaled h (15/100))\<rparr>,
    \<lparr>name = ''panel_defeat'', box = (scaled w (58/100), scaled h (5/100), scaled w (15/100), scaled h (90/100))\<rparr>,
    \<lparr>name = ''button_new_game'', box = (scaled w (75/100), scaled h (5/100), scaled w (12/100), scaled h (12/100))\<rparr>,
    \<lparr>name = ''button_resume'', box = (scaled w (75/100), scaled h (20/100), scaled w (12/100), scaled h (12/100))\<rparr>,
    \<lparr>name = ''button_settings'', box = (scaled w (75/100), scaled h (35/100), scaled w (12/100), scaled h (12/100))\<rparr>,
    \<lparr>name = ''button_shop'', box = (scaled w (75/100), scaled h (50/100), scaled w (12/100), scaled h (12/100))\<rparr>,
    \<lparr>name = ''button_exit'', box = (scaled w (75/100), scaled h (65/100), scaled w (12/100), scaled h (12/100))\<rparr>,
    \<lparr>name = ''decoration_grass_left'', box = (scaled w (2/100), scaled h (85/100), scaled w (8/100), scaled h (12/100))\<rparr>,
    \<lparr>name = ''decoration_grass_right'', box = (scaled w (92/100), scaled h (85/100), scaled w (8/100), scaled h (12/100))\<rparr>]"

subsection \<open>The files\<close>

text \<open>
  An entry of the list \<open>find_elements\<close> returns (the dictionary with the keys name,
  original_box, cropped_size and file), and the dictionary \<open>main\<close> writes as JSON.
\<close>

record element =
  el_name :: string
  original_box :: "int \<times> int \<times> int \<times> int"
  cropped_size :: "nat \<times> nat"
  el_file :: string

record metadata =
  source :: string
  elements :: "element list"
  total :: nat

text \<open>
  The file system as the script sees it: the directories that exist and the files, a PNG
  file holding its image and the JSON file the dictionary dumped into it. Failures of the
  environment (permissions, a full disk, a missing parent of a directory to create) are
  not modelled.
\<close>

datatype content = ImageFile image | JsonFile metadata

record filesystem =
  dirs :: "string set"
  files :: "string \<rightharpoonup> content"

text \<open>\<open>os.path.join(d, n)\<close> for a relative name \<open>n\<close>.\<close>

definition path_join :: "string \<Rightarrow> string \<Rightarrow> string" where
  "path_join d n = (if d = [] then n else if last d = CHR ''/'' then d @ n else d @ ''/'' @ n)"

text \<open>The current directory (the empty name) always exists.\<close>

definition dir_exists :: "filesystem \<Rightarrow> string \<Rightarrow> bool" where
  "dir_exists fs d \<longleftrightarrow> d = [] \<or> d \<in> dirs fs"

text \<open>\<open>Image.open(path)\<close>.\<close>

definition Image_open :: "filesystem \<Rightarrow> string \<Rightarrow> error + image" where
  "Image_open fs path =
     (case files fs path of
        None \<Rightarrow> Inl FileNotFoundError
      | Some (JsonFile m) \<Rightarrow> Inl UnidentifiedImageError
      | Some (ImageFile img) \<Rightarrow> Inr img)"

text \<open>
  \<open>os.makedirs(d, exist_ok=True)\<close>: afterwards the directory exists. The empty name
  raises FileNotFoundError and the name of a file FileExistsError.
\<close>

definition makedirs :: "filesystem \<Rightarrow> string \<Rightarrow> error + filesystem" where
  "makedirs fs d =
     (if d = [] then Inl FileNotFoundError
      else if files fs d \<noteq> None then Inl FileExistsError
      else Inr (fs\<lparr>dirs := insert d (dirs fs)\<rparr>))"

text \<open>
  \<open>img.save(path, 'PNG')\<close> for a path in the directory \<open>d\<close>: FileNotFoundError when
  the directory does not exist; Pillow's encoder raises SystemError (tile cannot extend
  outside image) for an image of width or height 0.
\<close>

definition save :: "filesystem \<Rightarrow> string \<Rightarrow> string \<Rightarrow> image \<Rightarrow> error + filesystem" where
  "save fs d path img =
     (if \<not> dir_exists fs d then Inl FileNotFoundError
      else if width img = 0 \<or> height img = 0 then Inl SystemError
      else Inr (fs\<lparr>files := (files fs)(path \<mapsto> ImageFile img)\<rparr>))"

text \<open>\<open>with open(path, 'w') as f: json.dump(m, f)\<close> for a path in the directory \<open>d\<close>.\<close>

definition dump_json :: "filesystem \<Rightarrow> string \<Rightarrow> string \<Rightarrow> metadata \<Rightarrow> error + filesystem" where
  "dump_json fs d path m =
     (if \<not> dir_exists fs d then Inl FileNotFoundError
      else Inr (fs\<lparr>files := (files fs)(path \<mapsto> JsonFile m)\<rparr>))"

subsection \<open>find_elements\<close>

text \<open>Lines 26 to 29: an image of another mode is converted to RGBA.\<close>

definition as_RGBA :: "image \<Rightarrow> image" where
  "as_RGBA img = (if mode img \<noteq> ''RGBA'' then convert_RGBA img else img)"

text \<open>Lines 64 to 67: the box of a region, grown by the padding and cut to the image.\<close>

definition padded_box :: "image \<Rightarrow> int \<times> int \<times> int \<times> int \<Rightarrow> int \<Rightarrow> int \<times> int \<times> int \<times> int" where
  "padded_box img bx padding =
     (case bx of (x, y, w, h) \<Rightarrow>
        let x1 = max 0 (x - padding);
            y1 = max 0 (y - padding);
            x2 = min (int (width img)) (x + w + padding);
            y2 = min (int (height img)) (y + h + padding)
        in (x1, y1, x2, y2))"

text \<open>Lines 60 to 86, the body of the loop over the regions.\<close>

definition extract_element ::
  "image \<Rightarrow> string \<Rightarrow> int \<Rightarrow> filesystem \<Rightarrow> region \<Rightarrow> error + (element \<times> filesystem)" where
  "extract_element img output_dir padding fs element =
     (case crop img (padded_box img (box element) padding) of
        Inl e \<Rightarrow> Inl e
      | Inr element_img \<Rightarrow>
          (case autocrop_transparency element_img 10 of
             Inl e \<Rightarrow> Inl e
           | Inr element_img \<Rightarrow>
               let output_path = path_join output_dir (name element @ ''.png'')
               in (case save fs output_dir output_path element_img of
                     Inl e \<Rightarrow> Inl e
                   | Inr fs' \<Rightarrow>
                       Inr (\<lparr>el_name = name element,
                             original_box = box element,
                             cropped_size = (width element_img, height element_img),
                             el_file = output_path\<rparr>, fs'))))"

fun extract_loop ::
  "image \<Rightarrow> string \<Rightarrow> int \<Rightarrow> region list \<Rightarrow> element list \<Rightarrow> filesystem
   \<Rightarrow> error + (element list \<times> filesystem)" where
  "extract_loop img output_dir padding [] extracted fs = Inr (extracted, fs)"
| "extract_loop img output_dir padding (element # rest) extracted fs =
     (case extract_element img output_dir padding fs element of
        Inl e \<Rightarrow> Inl e
      | Inr (entry, fs') \<Rightarrow> extract_loop img output_dir padding rest (extracted @ [entry]) fs')"

text \<open>
  \<open>find_elements\<close> returns the list of the extracted elements; the model returns the
  file system it leaves as well.
\<close>

definition find_elements ::
  "filesystem \<Rightarrow> string \<Rightarrow> string \<Rightarrow> int \<Rightarrow> error + (element list \<times> filesystem)" where
  "find_elements fs image_path output_dir padding =
     (case Image_open fs image_path of
        Inl e \<Rightarrow> Inl e
      | Inr opened \<Rightarrow>
          let img = as_RGBA opened
          in (case content_bounds img 10 of
                Inl e \<Rightarrow> Inl e
              | Inr None \<Rightarrow> Inr ([], fs)
              | Inr (Some bounds) \<Rightarrow>
                  let elements = define_ui_regions (width img) (height img)
                  in (case makedirs fs output_dir of
                        Inl e \<Rightarrow> Inl e
                      | Inr fs' \<Rightarrow> extract_loop img output_dir padding elements [] fs')))"

subsection \<open>main\<close>

text \<open>\<open>argv\<close> is \<open>sys.argv\<close>: the name of the script, then the arguments.\<close>

definition main :: "filesystem \<Rightarrow> string list \<Rightarrow> error + filesystem" where
  "main fs argv =
     (let input_path = (if 1 < length argv then argv ! 1
                        else ''processed-assets/ui-extracted/ui-master-highres.png'');
          output_dir = (if 2 < length argv then argv ! 2 else ''processed-assets/ui-elements'')
      in case find_elements fs input_path output_dir 20 of
           Inl e \<Rightarrow> Inl e
         | Inr (extracted, fs') \<Rightarrow>
             let metadata = \<lparr>source = input_path, elements = extracted,
                              total = length extracted\<rparr>;
                 metadata_path = path_join output_dir ''metadata.json''
             in dump_json fs' output_dir metadata_path metadata)"

subsection \<open>Boxes\<close>

text \<open>
  A box (x, y, w, h) lies within the image when it has no negative coordinate or size and
  ends inside the image. The boxes of \<open>define_ui_regions\<close> start inside the image and
  have no negative size.
\<close>

definition box_in_image :: "image \<Rightarrow> int \<times> int \<times> int \<times> int \<Rightarrow> bool" where
  "box_in_image img bx \<longleftrightarrow>
     (case bx of (x, y, w, h) \<Rightarrow>
        0 \<le> x \<and> 0 \<le> y \<and> 0 \<le> w \<and> 0 \<le> h \<and>
        x + w \<le> int (width img) \<and> y + h \<le> int (height img))"

definition box_start_in_image :: "image \<Rightarrow> int \<times> int \<times> int \<times> int \<Rightarrow> bool" where
  "box_start_in_image img bx \<longleftrightarrow>
     (case bx of (x, y, w, h) \<Rightarrow>
        0 \<le> x \<and> x \<le> int (width img) \<and> 0 \<le> y \<and> y \<le> int (height img) \<and> 0 \<le> w \<and> 0 \<le> h)"

section \<open>Sample inputs\<close>

definition clear_px :: pixel where "clear_px = (0, 0, 0, 0)"

definition solid_px :: pixel where "solid_px = (255, 255, 255, 255)"

text \<open>A 3 by 3 image with one opaque pixel in the middle.\<close>

definition dot_image :: image where
  "dot_image = \<lparr> mode = ''RGBA'', width = 3, height = 3,
     pixels = [[clear_px, clear_px, clear_px],
               [clear_px, solid_px, clear_px],
               [clear_px, clear_px, clear_px]] \<rparr>"

text \<open>A 2 by 2 image that is fully transparent.\<close>

definition clear_image :: image where
  "clear_image = \<lparr> mode = ''RGBA'', width = 2, height = 2,
     pixels = [[clear_px, clear_px], [clear_px, clear_px]] \<rparr>"

text \<open>A 2 by 1 opaque image without an alpha band.\<close>

definition rgb_image :: image where
  "rgb_image = \<lparr> mode = ''RGB'', width = 2, height = 1, pixels = [[solid_px, solid_px]] \<rparr>"

text \<open>
  The 100 by 100 image of the specification's scenario: transparent, but for an opaque square
  of 10 by 10 pixels whose first row and column are 40 (rows and columns 40 to 49).
\<close>

definition square_image :: image where
  "square_image = \<lparr> mode = ''RGBA'', width = 100, height = 100,
     pixels = replicate 40 (replicate 100 clear_px)
            @ replicate 10 (replicate 40 clear_px @ replicate 10 solid_px @ replicate 50 clear_px)
            @ replicate 50 (replicate 100 clear_px) \<rparr>"

text \<open>A fully transparent image of 50 by 50 pixels.\<close>

definition clear_sheet :: image where
  "clear_sheet = \<lparr> mode = ''RGBA'', width = 50, height = 50,
     pixels = replicate 50 (replicate 50 clear_px) \<rparr>"

text \<open>
  Two file systems before a first run: the sheet is there, the output directory is not.
\<close>

definition fresh_fs :: filesystem where
  "fresh_fs = \<lparr> dirs = {}, files = [''sheet.png'' \<mapsto> ImageFile clear_sheet] \<rparr>"

definition dot_fs :: filesystem where
  "dot_fs = \<lparr> dirs = {}, files = [''sheet.png'' \<mapsto> ImageFile dot_image] \<rparr>"

section \<open>Properties\<close>

subsection \<open>The mask, its rows and its columns\<close>

lemma np_any_iff: "np_any bs \<longleftrightarrow> (\<exists>i<length bs. bs ! i)"
  by (simp add: np_any_def list_ex_length)

lemma wf_row_length: "wf_image img \<Longrightarrow> r < height img \<Longrightarrow> length (pixels img ! r) = width img"
  by (simp add: wf_image_def list_all_length)

lemma mask_rows_length:
  "wf_image img \<Longrightarrow> length (np_any_axis1 (np_greater (alpha_channel img) t)) = height img"
  by (simp add: np_any_axis1_def np_greater_def alpha_channel_def wf_image_def)

lemma mask_cols_length: "length (np_any_axis0 n m) = n"
  by (simp add: np_any_axis0_def)

lemma mask_nth:
  "wf_image img \<Longrightarrow> r < height img \<Longrightarrow> c < width img \<Longrightarrow>
   np_greater (alpha_channel img) t ! r ! c \<longleftrightarrow> visible_at img t r c"
  by (simp add: np_greater_def alpha_channel_def visible_at_def wf_image_def list_all_length)

lemma mask_row_length:
  "wf_image img \<Longrightarrow> r < height img \<Longrightarrow> length (np_greater (alpha_channel img) t ! r) = width img"
  by (simp add: np_greater_def alpha_channel_def wf_image_def list_all_length)

lemma mask_length:
  "wf_image img \<Longrightarrow> length (np_greater (alpha_channel img) t) = height img"
  by (simp add: np_greater_def alpha_channel_def wf_image_def)

lemma rows_nth:
  assumes "wf_image img" "r < height img"
  shows "np_any_axis1 (np_greater (alpha_channel img) t) ! r \<longleftrightarrow> (\<exists>c. visible_at img t r c)"
proof -
  have "np_any_axis1 (np_greater (alpha_channel img) t) ! r
        = np_any (np_greater (alpha_channel img) t ! r)"
    using assms by (simp add: np_any_axis1_def mask_length)
  also have "\<dots> \<longleftrightarrow> (\<exists>c<width img. np_greater (alpha_channel img) t ! r ! c)"
    using assms by (simp add: np_any_iff mask_row_length)
  also have "\<dots> \<longleftrightarrow> (\<exists>c<width img. visible_at img t r c)"
    using assms by (auto simp: mask_nth)
  also have "\<dots> \<longleftrightarrow> (\<exists>c. visible_at img t r c)"
    by (auto simp: visible_at_def)
  finally show ?thesis .
qed

lemma cols_nth:
  assumes "wf_image img" "c < width img"
  shows "np_any_axis0 (width img) (np_greater (alpha_channel img) t) ! c
         \<longleftrightarrow> (\<exists>r. visible_at img t r c)"
proof -
  let ?m = "np_greater (alpha_channel img) t"
  have "np_any_axis0 (width img) ?m ! c = np_any (map (\<lambda>row. row ! c) ?m)"
    using assms by (simp add: np_any_axis0_def)
  also have "\<dots> \<longleftrightarrow> (\<exists>r<height img. ?m ! r ! c)"
    using assms by (auto simp: np_any_iff mask_length)
  also have "\<dots> \<longleftrightarrow> (\<exists>r<height img. visible_at img t r c)"
    using assms by (auto simp: mask_nth)
  also have "\<dots> \<longleftrightarrow> (\<exists>r. visible_at img t r c)"
    by (auto simp: visible_at_def)
  finally show ?thesis .
qed

lemma has_content_iff:
  assumes "wf_image img"
  shows "has_content img t \<longleftrightarrow> (\<exists>r c. visible_at img t r c)"
proof
  assume "has_content img t"
  then obtain row p where row: "row \<in> set (pixels img)" and p: "p \<in> set row"
    and v: "t < uint (band3 p)"
    by (auto simp: has_content_def list_ex_iff)
  from row obtain r where r: "r < length (pixels img)" "pixels img ! r = row"
    by (auto simp: in_set_conv_nth)
  from p obtain c where c: "c < length row" "row ! c = p"
    by (auto simp: in_set_conv_nth)
  have "r < height img" using r assms by (simp add: wf_image_def)
  moreover have "c < width img" using c r assms by (auto simp: wf_image_def list_all_length)
  ultimately have "visible_at img t r c" using r c v by (simp add: visible_at_def)
  then show "\<exists>r c. visible_at img t r c" by blast
next
  assume "\<exists>r c. visible_at img t r c"
  then obtain r c where a: "visible_at img t r c" by blast
  then have r: "r < length (pixels img)" and c: "c < length (pixels img ! r)"
    using assms by (simp_all add: visible_at_def wf_image_def list_all_length)
  have "pixels img ! r \<in> set (pixels img)" using r by simp
  moreover have "pixels img ! r ! c \<in> set (pixels img ! r)" using c by simp
  moreover have "t < uint (band3 (pixels img ! r ! c))" using a by (simp add: visible_at_def)
  ultimately show "has_content img t"
    unfolding has_content_def list_ex_iff by (intro bexI[of _ "pixels img ! r"] bexI[of _ "pixels img ! r ! c"])
qed

lemma sorted_np_where: "sorted (np_where bs)"
  by (simp add: np_where_def sorted_wrt_filter)

lemma set_np_where: "set (np_where bs) = {i. i < length bs \<and> bs ! i}"
  by (auto simp: np_where_def)

lemma sorted_first_last:
  "sorted xs \<Longrightarrow> x \<in> set xs \<Longrightarrow> hd xs \<le> x \<and> x \<le> last xs"
proof (induction xs)
  case Nil then show ?case by simp
next
  case (Cons a xs)
  show ?case
  proof (cases xs)
    case Nil
    with Cons.prems show ?thesis by simp
  next
    case (Cons b ys)
    have s: "sorted xs" and le: "\<forall>y\<in>set xs. a \<le> y" using Cons.prems(1) by simp_all
    have lst: "last (a # xs) = last xs" using Cons by simp
    have "last xs \<in> set xs" using Cons by simp
    then have al: "a \<le> last xs" using le by blast
    show ?thesis
    proof (cases "x = a")
      case True
      then show ?thesis using al lst by simp
    next
      case False
      then have "x \<in> set xs" using Cons.prems(2) by simp
      then have "hd xs \<le> x \<and> x \<le> last xs" using Cons.IH s by blast
      moreover have "a \<le> x" using le \<open>x \<in> set xs\<close> by blast
      ultimately show ?thesis using lst by simp
    qed
  qed
qed

lemma first_last_np_where:
  assumes "np_any bs"
  shows "\<exists>lo hi. first_last (np_where bs) = Inr (lo, hi)
          \<and> lo < length bs \<and> bs ! lo \<and> hi < length bs \<and> bs ! hi
          \<and> (\<forall>i<length bs. bs ! i \<longrightarrow> lo \<le> i \<and> i \<le> hi)"
proof -
  let ?w = "np_where bs"
  from assms obtain i where i: "i < length bs" "bs ! i" by (auto simp: np_any_iff)
  then have "i \<in> set ?w" by (simp add: set_np_where)
  then have ne: "?w \<noteq> []" by auto
  then obtain x xs where w: "?w = x # xs" by (cases ?w) simp_all
  have fl: "first_last ?w = Inr (hd ?w, last ?w)"
    unfolding first_last_def w by simp
  have h: "hd ?w \<in> set ?w" using ne by (rule hd_in_set)
  have l: "last ?w \<in> set ?w" using ne by (rule last_in_set)
  have a1: "hd ?w < length bs \<and> bs ! hd ?w" using h unfolding set_np_where by simp
  have a2: "last ?w < length bs \<and> bs ! last ?w" using l unfolding set_np_where by simp
  have b: "\<forall>j<length bs. bs ! j \<longrightarrow> hd ?w \<le> j \<and> j \<le> last ?w"
  proof (intro allI impI)
    fix j assume "j < length bs" "bs ! j"
    then have "j \<in> set ?w" by (simp add: set_np_where)
    then show "hd ?w \<le> j \<and> j \<le> last ?w"
      by (rule sorted_first_last[OF sorted_np_where])
  qed
  show ?thesis
    apply (rule exI[of _ "hd ?w"])
    apply (rule exI[of _ "last ?w"])
    using fl a1 a2 b apply simp
    done
qed

lemma any_rows_iff:
  assumes "wf_image img"
  shows "np_any (np_any_axis1 (np_greater (alpha_channel img) t)) \<longleftrightarrow> (\<exists>r c. visible_at img t r c)"
proof -
  let ?rows = "np_any_axis1 (np_greater (alpha_channel img) t)"
  have "np_any ?rows \<longleftrightarrow> (\<exists>r<height img. ?rows ! r)"
    using assms by (simp add: np_any_iff mask_rows_length)
  also have "\<dots> \<longleftrightarrow> (\<exists>r<height img. \<exists>c. visible_at img t r c)"
    using rows_nth[OF assms] by (meson)
  also have "\<dots> \<longleftrightarrow> (\<exists>r c. visible_at img t r c)"
    by (auto simp: visible_at_def)
  finally show ?thesis .
qed

lemma any_cols_iff:
  assumes "wf_image img"
  shows "np_any (np_any_axis0 (width img) (np_greater (alpha_channel img) t))
         \<longleftrightarrow> (\<exists>r c. visible_at img t r c)"
proof -
  let ?cols = "np_any_axis0 (width img) (np_greater (alpha_channel img) t)"
  have "np_any ?cols \<longleftrightarrow> (\<exists>c<width img. ?cols ! c)"
    by (simp add: np_any_iff mask_cols_length)
  also have "\<dots> \<longleftrightarrow> (\<exists>c<width img. \<exists>r. visible_at img t r c)"
    using cols_nth[OF assms] by (meson)
  also have "\<dots> \<longleftrightarrow> (\<exists>r c. visible_at img t r c)"
    by (auto simp: visible_at_def)
  finally show ?thesis .
qed

lemma content_bounds_empty:
  assumes "wf_image img" "\<not> has_content img t"
  shows "content_bounds img t = Inr None"
proof -
  have "\<not> np_any (np_any_axis1 (np_greater (alpha_channel img) t))"
    using assms by (simp add: any_rows_iff has_content_iff)
  then show ?thesis by (simp add: content_bounds_def Let_def)
qed

lemma content_bounds_content:
  assumes wf: "wf_image img" and hc: "has_content img t"
  shows "\<exists>row_min row_max col_min col_max.
          content_bounds img t = Inr (Some (row_min, row_max, col_min, col_max))
          \<and> (\<exists>c. visible_at img t row_min c) \<and> (\<exists>c. visible_at img t row_max c)
          \<and> (\<exists>r. visible_at img t r col_min) \<and> (\<exists>r. visible_at img t r col_max)
          \<and> (\<forall>r c. visible_at img t r c \<longrightarrow>
                 row_min \<le> r \<and> r \<le> row_max \<and> col_min \<le> c \<and> c \<le> col_max)"
proof -
  let ?rows = "np_any_axis1 (np_greater (alpha_channel img) t)"
  let ?cols = "np_any_axis0 (width img) (np_greater (alpha_channel img) t)"
  have ar: "np_any ?rows" using wf hc by (simp add: any_rows_iff has_content_iff)
  have ac: "np_any ?cols" using wf hc by (simp add: any_cols_iff has_content_iff)
  have lr: "length ?rows = height img" using wf by (rule mask_rows_length)
  have lc: "length ?cols = width img" by (rule mask_cols_length)
  from first_last_np_where[OF ar] obtain r0 r1 where
    fr: "first_last (np_where ?rows) = Inr (r0, r1)" and
    r0: "r0 < height img" "?rows ! r0" and r1: "r1 < height img" "?rows ! r1" and
    rb: "\<forall>i<height img. ?rows ! i \<longrightarrow> r0 \<le> i \<and> i \<le> r1"
    unfolding lr by blast
  from first_last_np_where[OF ac] obtain c0 c1 where
    fc: "first_last (np_where ?cols) = Inr (c0, c1)" and
    c0: "c0 < width img" "?cols ! c0" and c1: "c1 < width img" "?cols ! c1" and
    cb: "\<forall>i<width img. ?cols ! i \<longrightarrow> c0 \<le> i \<and> i \<le> c1"
    unfolding lc by blast
  have eq: "content_bounds img t = Inr (Some (r0, r1, c0, c1))"
    using ar ac fr fc by (simp add: content_bounds_def Let_def)
  have p0: "\<exists>c. visible_at img t r0 c" using r0 wf by (simp add: rows_nth)
  have p1: "\<exists>c. visible_at img t r1 c" using r1 wf by (simp add: rows_nth)
  have q0: "\<exists>r. visible_at img t r c0" using c0 wf by (simp add: cols_nth)
  have q1: "\<exists>r. visible_at img t r c1" using c1 wf by (simp add: cols_nth)
  have bd: "\<forall>r c. visible_at img t r c \<longrightarrow> r0 \<le> r \<and> r \<le> r1 \<and> c0 \<le> c \<and> c \<le> c1"
  proof (intro allI impI)
    fix r c assume a: "visible_at img t r c"
    then have r: "r < height img" and c: "c < width img" by (simp_all add: visible_at_def)
    have "?rows ! r" using wf r a by (auto simp: rows_nth)
    then have 1: "r0 \<le> r \<and> r \<le> r1" using rb r by blast
    have "?cols ! c" using wf c a by (auto simp: cols_nth)
    then have 2: "c0 \<le> c \<and> c \<le> c1" using cb c by blast
    show "r0 \<le> r \<and> r \<le> r1 \<and> c0 \<le> c \<and> c \<le> c1" using 1 2 by simp
  qed
  show ?thesis using eq p0 p1 q0 q1 bd by blast
qed

subsection \<open>Cropping\<close>

lemma crop_Inr:
  assumes "left \<le> right" "upper \<le> lower"
  shows "crop img (left, upper, right, lower) =
         Inr \<lparr> mode = mode img, width = nat (right - left), height = nat (lower - upper),
               pixels = map (\<lambda>r. map (\<lambda>c. getpixel img (left + int c) (upper + int r))
                                       [0..<nat (right - left)])
                            [0..<nat (lower - upper)] \<rparr>"
  using assms by (simp add: crop_def)

lemma crop_wf: "crop img bx = Inr img' \<Longrightarrow> wf_image img'"
  by (cases bx) (auto simp: crop_def wf_image_def list_all_iff split: if_splits)

lemma crop_mode: "crop img bx = Inr img' \<Longrightarrow> mode img' = mode img"
  by (cases bx) (auto simp: crop_def split: if_splits)

lemma getpixel_inside:
  "r < height img \<Longrightarrow> c < width img \<Longrightarrow> getpixel img (int c) (int r) = pixels img ! r ! c"
  by (simp add: getpixel_def)

lemma crop_whole:
  assumes "wf_image img"
  shows "crop img (0, 0, int (width img), int (height img)) = Inr img"
proof -
  let ?px = "map (\<lambda>r. map (\<lambda>c. getpixel img (0 + int c) (0 + int r)) [0..<width img])
                 [0..<height img]"
  have len: "length (pixels img) = height img" using assms by (simp add: wf_image_def)
  have rows: "\<And>r. r < height img \<Longrightarrow> length (pixels img ! r) = width img"
    using assms by (simp add: wf_row_length)
  have "?px = pixels img"
  proof (rule nth_equalityI)
    show "length ?px = length (pixels img)" using len by simp
  next
    fix r assume "r < length ?px"
    then have r: "r < height img" by simp
    have "?px ! r = map (\<lambda>c. getpixel img (int c) (int r)) [0..<width img]"
      using r by simp
    also have "\<dots> = pixels img ! r"
    proof (rule nth_equalityI)
      show "length (map (\<lambda>c. getpixel img (int c) (int r)) [0..<width img])
            = length (pixels img ! r)" using rows[OF r] by simp
    next
      fix c assume "c < length (map (\<lambda>c. getpixel img (int c) (int r)) [0..<width img])"
      then have c: "c < width img" by simp
      then show "map (\<lambda>c. getpixel img (int c) (int r)) [0..<width img] ! c
                 = pixels img ! r ! c"
        using r by (simp add: getpixel_inside)
    qed
    finally show "?px ! r = pixels img ! r" .
  qed
  then show ?thesis by (simp add: crop_def)
qed

text \<open>The crop of a box inside the image.\<close>

lemma crop_inside:
  assumes "c0 \<le> c1" "r0 \<le> r1" "c1 < width img" "r1 < height img"
  shows "\<exists>img'. crop img (int c0, int r0, int c1 + 1, int r1 + 1) = Inr img'
          \<and> mode img' = mode img \<and> wf_image img'
          \<and> width img' = c1 - c0 + 1 \<and> height img' = r1 - r0 + 1
          \<and> (\<forall>r c. r < height img' \<longrightarrow> c < width img' \<longrightarrow>
                 pixels img' ! r ! c = pixels img ! (r0 + r) ! (c0 + c))"
proof -
  let ?w = "nat (int c1 + 1 - int c0)" and ?h = "nat (int r1 + 1 - int r0)"
  let ?img' = "\<lparr> mode = mode img, width = ?w, height = ?h,
               pixels = map (\<lambda>r. map (\<lambda>c. getpixel img (int c0 + int c) (int r0 + int r))
                                       [0..<?w]) [0..<?h] \<rparr>"
  have w: "?w = c1 - c0 + 1" and h: "?h = r1 - r0 + 1" using assms by linarith+
  have eq: "crop img (int c0, int r0, int c1 + 1, int r1 + 1) = Inr ?img'"
    using assms by (intro crop_Inr) simp_all
  have px: "\<forall>r c. r < height ?img' \<longrightarrow> c < width ?img' \<longrightarrow>
                 pixels ?img' ! r ! c = pixels img ! (r0 + r) ! (c0 + c)"
  proof (intro allI impI)
    fix r c assume "r < height ?img'" "c < width ?img'"
    then have r: "r < ?h" and c: "c < ?w" by simp_all
    then have r': "r0 + r < height img" and c': "c0 + c < width img"
      using assms w h by linarith+
    have "pixels ?img' ! r ! c = getpixel img (int c0 + int c) (int r0 + int r)"
      using r c by simp
    also have "\<dots> = getpixel img (int (c0 + c)) (int (r0 + r))" by simp
    also have "\<dots> = pixels img ! (r0 + r) ! (c0 + c)"
      using r' c' by (rule getpixel_inside)
    finally show "pixels ?img' ! r ! c = pixels img ! (r0 + r) ! (c0 + c)" .
  qed
  have "wf_image ?img'" using eq by (rule crop_wf)
  moreover have "mode ?img' = mode img" by simp
  moreover have "width ?img' = c1 - c0 + 1" using w by simp
  moreover have "height ?img' = r1 - r0 + 1" using h by simp
  ultimately show ?thesis using eq px by blast
qed

subsection \<open>autocrop_transparency\<close>

lemma any_rows_has_content:
  "np_any (np_any_axis1 (np_greater (alpha_channel img) t)) = has_content img t"
  by (simp add: np_any_def np_any_axis1_def np_greater_def alpha_channel_def has_content_def
      list_ex_iff)

lemma content_bounds_no_content: "\<not> has_content img t \<Longrightarrow> content_bounds img t = Inr None"
  by (simp add: content_bounds_def Let_def any_rows_has_content)

lemma autocrop_no_content: "\<not> has_content img t \<Longrightarrow> autocrop_transparency img t = Inr img"
  by (simp add: autocrop_transparency_def content_bounds_no_content)

lemma bounds_inside:
  assumes "\<exists>c. visible_at img t r0 c" "\<exists>c. visible_at img t r1 c"
    "\<exists>r. visible_at img t r c0" "\<exists>r. visible_at img t r c1"
    "\<forall>r c. visible_at img t r c \<longrightarrow> r0 \<le> r \<and> r \<le> r1 \<and> c0 \<le> c \<and> c \<le> c1"
  shows "r0 \<le> r1 \<and> c0 \<le> c1 \<and> r1 < height img \<and> c1 < width img"
proof -
  from assms(1) obtain c where a: "visible_at img t r0 c" by blast
  from assms(3) obtain r where b: "visible_at img t r c0" by blast
  from assms(2) obtain c' where a1: "visible_at img t r1 c'" by blast
  from assms(4) obtain r' where b1: "visible_at img t r' c1" by blast
  have "r0 \<le> r1" using assms(5) a by blast
  moreover have "c0 \<le> c1" using assms(5) b by blast
  moreover have "r1 < height img" using a1 by (simp add: visible_at_def)
  moreover have "c1 < width img" using b1 by (simp add: visible_at_def)
  ultimately show ?thesis by simp
qed

lemma autocrop_content:
  assumes wf: "wf_image img" and m: "mode img = ''RGBA''" and hc: "has_content img t"
  shows "\<exists>row_min row_max col_min col_max img'.
          content_bounds img t = Inr (Some (row_min, row_max, col_min, col_max))
          \<and> (\<exists>c. visible_at img t row_min c) \<and> (\<exists>c. visible_at img t row_max c)
          \<and> (\<exists>r. visible_at img t r col_min) \<and> (\<exists>r. visible_at img t r col_max)
          \<and> (\<forall>r c. visible_at img t r c \<longrightarrow>
                 row_min \<le> r \<and> r \<le> row_max \<and> col_min \<le> c \<and> c \<le> col_max)
          \<and> autocrop_transparency img t = Inr img'
          \<and> crop img (int col_min, int row_min, int col_max + 1, int row_max + 1) = Inr img'
          \<and> mode img' = ''RGBA'' \<and> wf_image img'
          \<and> width img' = col_max - col_min + 1 \<and> height img' = row_max - row_min + 1
          \<and> (\<forall>r c. r < height img' \<longrightarrow> c < width img' \<longrightarrow>
                 pixels img' ! r ! c = pixels img ! (row_min + r) ! (col_min + c))"
proof -
  from content_bounds_content[OF wf hc] obtain r0 r1 c0 c1 where
    cb: "content_bounds img t = Inr (Some (r0, r1, c0, c1))" and
    p: "\<exists>c. visible_at img t r0 c" "\<exists>c. visible_at img t r1 c"
       "\<exists>r. visible_at img t r c0" "\<exists>r. visible_at img t r c1" and
    bd: "\<forall>r c. visible_at img t r c \<longrightarrow> r0 \<le> r \<and> r \<le> r1 \<and> c0 \<le> c \<and> c \<le> c1"
    by blast
  have ins: "r0 \<le> r1 \<and> c0 \<le> c1 \<and> r1 < height img \<and> c1 < width img"
    using p bd by (rule bounds_inside)
  from ins have "\<exists>img'. crop img (int c0, int r0, int c1 + 1, int r1 + 1) = Inr img'
          \<and> mode img' = mode img \<and> wf_image img'
          \<and> width img' = c1 - c0 + 1 \<and> height img' = r1 - r0 + 1
          \<and> (\<forall>r c. r < height img' \<longrightarrow> c < width img' \<longrightarrow>
                 pixels img' ! r ! c = pixels img ! (r0 + r) ! (c0 + c))"
    by (intro crop_inside) simp_all
  then obtain img' where
    cr: "crop img (int c0, int r0, int c1 + 1, int r1 + 1) = Inr img'" and
    q: "mode img' = mode img" "wf_image img'" "width img' = c1 - c0 + 1"
       "height img' = r1 - r0 + 1" and
    px: "\<forall>r c. r < height img' \<longrightarrow> c < width img' \<longrightarrow>
                 pixels img' ! r ! c = pixels img ! (r0 + r) ! (c0 + c)"
    by blast
  have ac: "autocrop_transparency img t = Inr img'"
    using m cb cr by (simp add: autocrop_transparency_def)
  show ?thesis
    apply (rule exI[of _ r0], rule exI[of _ r1], rule exI[of _ c0], rule exI[of _ c1])
    apply (rule exI[of _ img'])
    using cb p bd ac cr q px m apply simp
    done
qed

lemma autocrop_tight:
  assumes wf: "wf_image a" and m: "mode a = ''RGBA''"
    and top: "\<exists>c. visible_at a t 0 c" and bot: "\<exists>c. visible_at a t (height a - 1) c"
    and lft: "\<exists>r. visible_at a t r 0" and rgt: "\<exists>r. visible_at a t r (width a - 1)"
  shows "autocrop_transparency a t = Inr a"
proof -
  have hc: "has_content a t" using top wf by (auto simp: has_content_iff)
  from content_bounds_content[OF wf hc] obtain s0 s1 d0 d1 where
    cb: "content_bounds a t = Inr (Some (s0, s1, d0, d1))" and
    p: "\<exists>c. visible_at a t s1 c" "\<exists>r. visible_at a t r d1" and
    bd: "\<forall>r c. visible_at a t r c \<longrightarrow> s0 \<le> r \<and> r \<le> s1 \<and> d0 \<le> c \<and> d1 \<ge> c"
    by blast
  have "s0 \<le> 0" using top bd by blast
  then have s0: "s0 = 0" by simp
  have "d0 \<le> 0" using lft bd by blast
  then have d0: "d0 = 0" by simp
  have "height a - 1 \<le> s1" using bot bd by blast
  moreover have "s1 < height a" using p(1) by (auto simp: visible_at_def)
  ultimately have s1: "int s1 + 1 = int (height a)" by linarith
  have "width a - 1 \<le> d1" using rgt bd by blast
  moreover have "d1 < width a" using p(2) by (auto simp: visible_at_def)
  ultimately have d1: "int d1 + 1 = int (width a)" by linarith
  have "autocrop_transparency a t = crop a (int d0, int s0, int d1 + 1, int s1 + 1)"
    using m cb by (simp add: autocrop_transparency_def)
  also have "\<dots> = crop a (0, 0, int (width a), int (height a))"
    using s0 d0 s1 d1 by simp
  also have "\<dots> = Inr a" using wf by (rule crop_whole)
  finally show ?thesis .
qed

lemma autocrop_idem:
  assumes wf: "wf_image img"
  shows "\<exists>a. autocrop_transparency img t = Inr a \<and> autocrop_transparency a t = Inr a"
proof (cases "mode img = ''RGBA'' \<and> has_content img t")
  case False
  then have "autocrop_transparency img t = Inr img"
    using autocrop_no_content[of img t] by (auto simp: autocrop_transparency_def)
  then show ?thesis by simp
next
  case True
  then have m: "mode img = ''RGBA''" and hc: "has_content img t" by simp_all
  from autocrop_content[OF wf m hc] obtain r0 r1 c0 c1 a where
    p0: "\<exists>c. visible_at img t r0 c" and p1: "\<exists>c. visible_at img t r1 c" and
    q0: "\<exists>r. visible_at img t r c0" and q1: "\<exists>r. visible_at img t r c1" and
    bd: "\<forall>r c. visible_at img t r c \<longrightarrow> r0 \<le> r \<and> r \<le> r1 \<and> c0 \<le> c \<and> c \<le> c1" and
    ac: "autocrop_transparency img t = Inr a" and
    ma: "mode a = ''RGBA''" and wfa: "wf_image a" and
    wa: "width a = c1 - c0 + 1" and ha: "height a = r1 - r0 + 1" and
    px: "\<forall>r c. r < height a \<longrightarrow> c < width a \<longrightarrow>
                 pixels a ! r ! c = pixels img ! (r0 + r) ! (c0 + c)"
    by blast
  have ins: "r0 \<le> r1 \<and> c0 \<le> c1 \<and> r1 < height img \<and> c1 < width img"
    using p0 p1 q0 q1 bd by (rule bounds_inside)
  have tr: "visible_at a t (r - r0) (c - c0)" if v: "visible_at img t r c" for r c
  proof -
    have b: "r0 \<le> r \<and> r \<le> r1 \<and> c0 \<le> c \<and> c \<le> c1" using bd v by blast
    then have r: "r - r0 < height a" and c: "c - c0 < width a" using ha wa by linarith+
    have "pixels a ! (r - r0) ! (c - c0) = pixels img ! (r0 + (r - r0)) ! (c0 + (c - c0))"
      using px r c by blast
    also have "\<dots> = pixels img ! r ! c" using b by simp
    finally show ?thesis using v r c by (simp add: visible_at_def)
  qed
  from p0 obtain c where "visible_at img t r0 c" by blast
  from tr[OF this] have top: "\<exists>c. visible_at a t 0 c" by auto
  from p1 obtain c' where "visible_at img t r1 c'" by blast
  from tr[OF this] have bot: "\<exists>c. visible_at a t (height a - 1) c" using ha by auto
  from q0 obtain r where "visible_at img t r c0" by blast
  from tr[OF this] have lft: "\<exists>r. visible_at a t r 0" by auto
  from q1 obtain r' where "visible_at img t r' c1" by blast
  from tr[OF this] have rgt: "\<exists>r. visible_at a t r (width a - 1)" using wa by auto
  have "autocrop_transparency a t = Inr a"
    using wfa ma top bot lft rgt by (rule autocrop_tight)
  then show ?thesis using ac by simp
qed

subsection \<open>Rounding\<close>

lemma bitlen_pos: "0 < a \<Longrightarrow> 1 \<le> bitlen a"
  by (auto simp: bitlen_alt_def)

lemma float_exponent_le:
  assumes "0 < x"
  shows "2 powi (float_exponent x) \<le> x"
proof -
  obtain a b where q: "quotient_of x = (a, b)" by (cases "quotient_of x")
  have b: "0 < b" using q by (rule quotient_of_denom_pos)
  have x: "x = of_int a / of_int b" using q by (rule quotient_of_div)
  have a: "0 < a" using assms b x by (simp add: zero_less_divide_iff)
  let ?d = "bitlen a - bitlen b"
  show ?thesis
  proof (cases "2 powi ?d \<le> x")
    case True
    then show ?thesis using q by (simp add: float_exponent_def)
  next
    case False
    then have e: "float_exponent x = ?d - 1" using q by (simp add: float_exponent_def)
    have la: "1 \<le> bitlen a" using a by (rule bitlen_pos)
    have lb: "1 \<le> bitlen b" using b by (rule bitlen_pos)
    have "(2::int) ^ nat (bitlen a - 1) \<le> a" using bitlen_bounds[OF a] by simp
    then have "(of_int ((2::int) ^ nat (bitlen a - 1)) :: rat) \<le> of_int a"
      by (simp only: of_int_le_iff)
    then have A: "(2::rat) ^ nat (bitlen a - 1) \<le> of_int a" by simp
    have "b < (2::int) ^ nat (bitlen b)" using bitlen_bounds[OF b] by simp
    then have "(of_int b :: rat) < of_int ((2::int) ^ nat (bitlen b))"
      by (simp only: of_int_less_iff)
    then have B: "(of_int b :: rat) \<le> 2 ^ nat (bitlen b)" by simp
    have pa: "(2::rat) powi (bitlen a - 1) = 2 ^ nat (bitlen a - 1)"
      using la by (simp add: power_int_def)
    have pb: "(2::rat) powi (bitlen b) = 2 ^ nat (bitlen b)"
      using lb by (simp add: power_int_def)
    have "(2::rat) powi (?d - 1) = 2 powi (bitlen a - 1) / 2 powi (bitlen b)"
      using power_int_diff[of "2::rat" "bitlen a - 1" "bitlen b"] by (simp add: algebra_simps)
    also have "\<dots> = 2 ^ nat (bitlen a - 1) / 2 ^ nat (bitlen b)" by (simp only: pa pb)
    also have "\<dots> \<le> of_int a / of_int b"
      using A B a b by (intro frac_le) simp_all
    finally show ?thesis using e x by simp
  qed
qed

lemma round_half_even_le: "of_int (round_half_even q) \<le> q + 1 / 2"
proof -
  let ?n = "\<lfloor>q\<rfloor>"
  show ?thesis
  proof (cases "q - of_int ?n < 1 / 2")
    case True
    then have "(of_int (round_half_even q) :: rat) = of_int ?n"
      by (simp add: round_half_even_def Let_def)
    also have "\<dots> \<le> q" by (rule of_int_floor_le)
    also have "q \<le> q + 1 / 2" by simp
    finally show ?thesis .
  next
    case False
    then have g: "of_int ?n + 1 \<le> q + 1 / 2" by simp
    have "round_half_even q \<le> ?n + 1" using False by (simp add: round_half_even_def Let_def)
    then have "(of_int (round_half_even q) :: rat) \<le> of_int (?n + 1)"
      by (simp only: of_int_le_iff)
    then show ?thesis using g by simp
  qed
qed

lemma round_half_even_nonneg: "0 \<le> q \<Longrightarrow> 0 \<le> round_half_even q"
  by (auto simp: round_half_even_def Let_def)

lemma round_double_nonneg: "0 \<le> x \<Longrightarrow> 0 \<le> round_double x"
  by (simp add: round_double_def Let_def round_half_even_nonneg)

lemma round_double_le:
  assumes "0 \<le> x"
  shows "round_double x \<le> x * (1 + 1 / 2 ^ 53)"
proof (cases "x = 0")
  case True
  then show ?thesis by (simp add: round_double_def)
next
  case False
  then have pos: "0 < x" using assms by simp
  let ?e = "float_exponent x"
  let ?u = "(2::rat) powi (?e - 52)"
  have u: "0 < ?u" by simp
  have rd: "round_double x = of_int (round_half_even (x / ?u)) * ?u"
    using False by (simp add: round_double_def Let_def)
  have "of_int (round_half_even (x / ?u)) * ?u \<le> (x / ?u + 1 / 2) * ?u"
    using u round_half_even_le[of "x / ?u"] by (intro mult_right_mono) simp_all
  also have "\<dots> = x + ?u / 2" using u by (simp add: field_simps)
  finally have 1: "round_double x \<le> x + ?u / 2" using rd by simp
  have "?u = 2 powi ?e / 2 powi 52"
    using power_int_diff[of "2::rat" ?e 52] by simp
  then have "?u / 2 = 2 powi ?e / 2 ^ 53" by simp
  also have "\<dots> \<le> x / 2 ^ 53"
    using float_exponent_le[OF pos] by (intro divide_right_mono) simp_all
  finally have 2: "?u / 2 \<le> x / 2 ^ 53" .
  have "round_double x \<le> x + x / 2 ^ 53" using 1 2 by linarith
  also have "\<dots> = x * (1 + 1 / 2 ^ 53)" by (simp add: algebra_simps)
  finally show ?thesis .
qed


lemma round_double_le_percent:
  assumes "0 \<le> x"
  shows "round_double x \<le> x * (101 / 100)"
proof -
  have "round_double x \<le> x * (1 + 1 / 2 ^ 53)" using assms by (rule round_double_le)
  also have "\<dots> \<le> x * (101 / 100)" using assms by (intro mult_left_mono) simp_all
  finally show ?thesis .
qed

lemma scaled_bounds:
  assumes "0 \<le> c" "c \<le> 92 / 100"
  shows "0 \<le> scaled w c \<and> scaled w c \<le> int w"
proof -
  let ?k = "101 / 100 :: rat"
  let ?c = "round_double c" and ?w = "round_double (of_nat w)"
  have c0: "0 \<le> ?c" using assms(1) by (rule round_double_nonneg)
  have w0: "0 \<le> ?w" by (rule round_double_nonneg) simp
  have "?c \<le> c * ?k" using assms(1) by (rule round_double_le_percent)
  also have "\<dots> \<le> (92 / 100) * ?k" using assms(2) by (intro mult_right_mono) simp_all
  finally have c1: "?c \<le> (92 / 100) * ?k" .
  have w1: "?w \<le> of_nat w * ?k" by (rule round_double_le_percent) simp
  have p0: "0 \<le> ?w * ?c" using w0 c0 by simp
  have "?w * ?c \<le> (of_nat w * ?k) * ((92 / 100) * ?k)"
    using w1 c1 w0 c0 by (intro mult_mono) simp_all
  then have p1: "?w * ?c \<le> of_nat w * ((92 / 100) * ?k * ?k)" by (simp add: mult_ac)
  have r0: "0 \<le> round_double (?w * ?c)" using p0 by (rule round_double_nonneg)
  have "round_double (?w * ?c) \<le> (?w * ?c) * ?k" using p0 by (rule round_double_le_percent)
  also have "\<dots> \<le> (of_nat w * ((92 / 100) * ?k * ?k)) * ?k"
    using p1 by (intro mult_right_mono) simp_all
  also have "\<dots> = of_nat w * ((92 / 100) * ?k * ?k * ?k)" by (simp add: mult_ac)
  also have "\<dots> \<le> of_nat w * 1" by (intro mult_left_mono) simp_all
  finally have r1: "round_double (?w * ?c) \<le> of_nat w" by simp
  have s: "scaled w c = \<lfloor>round_double (?w * ?c)\<rfloor>"
    using r0 by (simp add: scaled_def py_int_def)
  have "0 \<le> \<lfloor>round_double (?w * ?c)\<rfloor>" using r0 by simp
  moreover have "\<lfloor>round_double (?w * ?c)\<rfloor> \<le> int w"
    using r1 by (simp add: floor_le_iff)
  ultimately show ?thesis using s by simp
qed

subsection \<open>The sample images\<close>

lemma wf_dot_image: "wf_image dot_image"
  by (simp add: wf_image_def dot_image_def)

lemma has_content_dot_image: "has_content dot_image 10"
  by (simp add: has_content_def dot_image_def solid_px_def clear_px_def band3_def)

lemma wf_clear_image: "wf_image clear_image"
  by (simp add: wf_image_def clear_image_def)

lemma no_content_clear_image: "\<not> has_content clear_image 10"
  by (simp add: has_content_def clear_image_def clear_px_def band3_def)

lemma wf_square_image: "wf_image square_image"
  by (simp add: wf_image_def square_image_def list_all_iff)

lemma square_image_bounds: "content_bounds square_image 10 = Inr (Some (40, 49, 40, 49))"
  by code_simp


subsection \<open>The region table\<close>

lemma scaled_nonneg: "0 \<le> c \<Longrightarrow> c \<le> 92 / 100 \<Longrightarrow> 0 \<le> scaled w c"
  using scaled_bounds[of c w] by simp

lemma scaled_le: "0 \<le> c \<Longrightarrow> c \<le> 92 / 100 \<Longrightarrow> scaled w c \<le> int w"
  using scaled_bounds[of c w] by simp

lemma define_ui_regions_boxes:
  "list_all (\<lambda>r. box_start_in_image img (box r)) (define_ui_regions (width img) (height img))"
  by (simp add: define_ui_regions_def box_start_in_image_def scaled_nonneg scaled_le)

lemma length_define_ui_regions: "length (define_ui_regions w h) = 26"
  by (simp add: define_ui_regions_def)

subsection \<open>Padding and cropping a region\<close>

lemma padded_box_bounds:
  assumes "box_start_in_image img (x, y, w, h)" and "0 \<le> padding"
  shows "\<exists>x1 y1 x2 y2. padded_box img (x, y, w, h) padding = (x1, y1, x2, y2)
          \<and> 0 \<le> x1 \<and> x1 \<le> x2 \<and> x2 \<le> int (width img)
          \<and> 0 \<le> y1 \<and> y1 \<le> y2 \<and> y2 \<le> int (height img)
          \<and> (0 < padding \<longrightarrow> 0 < width img \<longrightarrow> x1 < x2)
          \<and> (0 < padding \<longrightarrow> 0 < height img \<longrightarrow> y1 < y2)"
  using assms by (auto simp: padded_box_def box_start_in_image_def Let_def)

lemma crop_in_image:
  assumes "0 \<le> x1" "x1 \<le> x2" "x2 \<le> int (width img)" "0 \<le> y1" "y1 \<le> y2"
    "y2 \<le> int (height img)"
  shows "\<exists>sub. crop img (x1, y1, x2, y2) = Inr sub \<and> mode sub = mode img \<and> wf_image sub
          \<and> width sub = nat (x2 - x1) \<and> height sub = nat (y2 - y1)
          \<and> (\<forall>r c. r < height sub \<longrightarrow> c < width sub \<longrightarrow>
                 nat y1 + r < height img \<and> nat x1 + c < width img \<and>
                 pixels sub ! r ! c = pixels img ! (nat y1 + r) ! (nat x1 + c))"
proof -
  let ?sub = "\<lparr> mode = mode img, width = nat (x2 - x1), height = nat (y2 - y1),
               pixels = map (\<lambda>r. map (\<lambda>c. getpixel img (x1 + int c) (y1 + int r))
                                       [0..<nat (x2 - x1)]) [0..<nat (y2 - y1)] \<rparr>"
  have eq: "crop img (x1, y1, x2, y2) = Inr ?sub" using assms by (intro crop_Inr)
  have wf: "wf_image ?sub" using eq by (rule crop_wf)
  have px: "\<forall>r c. r < height ?sub \<longrightarrow> c < width ?sub \<longrightarrow>
                 nat y1 + r < height img \<and> nat x1 + c < width img \<and>
                 pixels ?sub ! r ! c = pixels img ! (nat y1 + r) ! (nat x1 + c)"
  proof (intro allI impI)
    fix r c assume "r < height ?sub" "c < width ?sub"
    then have r: "r < nat (y2 - y1)" and c: "c < nat (x2 - x1)" by simp_all
    have r': "nat y1 + r < height img" using r assms by linarith
    have c': "nat x1 + c < width img" using c assms by linarith
    have "pixels ?sub ! r ! c = getpixel img (x1 + int c) (y1 + int r)" using r c by simp
    also have "\<dots> = getpixel img (int (nat x1 + c)) (int (nat y1 + r))" using assms by simp
    also have "\<dots> = pixels img ! (nat y1 + r) ! (nat x1 + c)"
      using r' c' by (rule getpixel_inside)
    finally show "nat y1 + r < height img \<and> nat x1 + c < width img \<and>
                 pixels ?sub ! r ! c = pixels img ! (nat y1 + r) ! (nat x1 + c)"
      using r' c' by simp
  qed
  show ?thesis
    apply (rule exI[of _ ?sub])
    using eq wf px apply simp
    done
qed

lemma has_content_size:
  assumes "wf_image img" "has_content img t"
  shows "0 < width img \<and> 0 < height img"
proof -
  from assms obtain r c where "visible_at img t r c" by (auto simp: has_content_iff)
  then show ?thesis by (auto simp: visible_at_def)
qed

subsection \<open>The loop of find_elements\<close>

lemma autocrop_nonempty:
  assumes wf: "wf_image img" and sz: "0 < width img" "0 < height img"
  shows "\<exists>a. autocrop_transparency img t = Inr a \<and> 0 < width a \<and> 0 < height a"
proof (cases "mode img = ''RGBA'' \<and> has_content img t")
  case False
  then have "autocrop_transparency img t = Inr img"
    using autocrop_no_content[of img t] by (auto simp: autocrop_transparency_def)
  then show ?thesis using sz by simp
next
  case True
  then have m: "mode img = ''RGBA''" and hc: "has_content img t" by simp_all
  from autocrop_content[OF wf m hc] obtain r0 r1 c0 c1 a where
    "autocrop_transparency img t = Inr a"
    "width a = c1 - c0 + 1" "height a = r1 - r0 + 1"
    by blast
  then show ?thesis by simp
qed

lemma extract_element_Inr:
  assumes wf: "wf_image img" and sz: "0 < width img" "0 < height img"
    and bx: "box_start_in_image img (box element)" and pd: "0 < padding"
    and d: "dir_exists fs output_dir"
  shows "\<exists>entry fs'. extract_element img output_dir padding fs element = Inr (entry, fs')
          \<and> el_name entry = name element \<and> original_box entry = box element
          \<and> dirs fs' = dirs fs"
proof -
  obtain x y w h where b: "box element = (x, y, w, h)" by (cases "box element")
  from padded_box_bounds[of img x y w h padding] bx pd sz b obtain x1 y1 x2 y2 where
    pb: "padded_box img (box element) padding = (x1, y1, x2, y2)" and
    bd: "0 \<le> x1" "x1 \<le> x2" "x2 \<le> int (width img)" "0 \<le> y1" "y1 \<le> y2"
        "y2 \<le> int (height img)" and
    ne: "x1 < x2" "y1 < y2"
    by auto
  from crop_in_image[OF bd] obtain sub where
    cr: "crop img (x1, y1, x2, y2) = Inr sub" and
    sub: "wf_image sub" "width sub = nat (x2 - x1)" "height sub = nat (y2 - y1)"
    by blast
  have ssz: "0 < width sub" "0 < height sub" using sub ne by simp_all
  from autocrop_nonempty[OF sub(1) ssz, of 10] obtain a where
    ac: "autocrop_transparency sub 10 = Inr a" and asz: "0 < width a" "0 < height a"
    by blast
  have sv: "save fs output_dir (path_join output_dir (name element @ ''.png'')) a
            = Inr (fs\<lparr>files := (files fs)(path_join output_dir (name element @ ''.png'')
                     \<mapsto> ImageFile a)\<rparr>)"
    using d asz by (simp add: save_def)
  show ?thesis
    using pb cr ac sv by (simp add: extract_element_def Let_def)
qed

lemma extract_loop_Inr:
  assumes wf: "wf_image img" and sz: "0 < width img" "0 < height img" and pd: "0 < padding"
  shows "list_all (\<lambda>r. box_start_in_image img (box r)) rs \<Longrightarrow> dir_exists fs output_dir \<Longrightarrow>
         \<exists>els fs'. extract_loop img output_dir padding rs extracted fs = Inr (extracted @ els, fs')
           \<and> map el_name els = map name rs \<and> dirs fs' = dirs fs"
proof (induction rs arbitrary: extracted fs)
  case Nil
  then show ?case by simp
next
  case (Cons r rs)
  have b: "box_start_in_image img (box r)" using Cons.prems(1) by simp
  from extract_element_Inr[OF wf sz b pd Cons.prems(2)] obtain entry fs1 where
    e: "extract_element img output_dir padding fs r = Inr (entry, fs1)" and
    n: "el_name entry = name r" and ds: "dirs fs1 = dirs fs"
    by blast
  have d1: "dir_exists fs1 output_dir" using Cons.prems(2) ds by (simp add: dir_exists_def)
  have rest: "list_all (\<lambda>r. box_start_in_image img (box r)) rs" using Cons.prems(1) by simp
  from Cons.IH[OF rest d1, of "extracted @ [entry]"] obtain els fs' where
    l: "extract_loop img output_dir padding rs (extracted @ [entry]) fs1
        = Inr ((extracted @ [entry]) @ els, fs')" and
    m: "map el_name els = map name rs" and ds': "dirs fs' = dirs fs1"
    by blast
  have "extract_loop img output_dir padding (r # rs) extracted fs
        = Inr (extracted @ (entry # els), fs')"
    using e l by simp
  moreover have "map el_name (entry # els) = map name (r # rs)" using n m by simp
  moreover have "dirs fs' = dirs fs" using ds ds' by simp
  ultimately show ?case by blast
qed

lemma as_RGBA_facts:
  "mode (as_RGBA img) = ''RGBA''" "width (as_RGBA img) = width img"
  "height (as_RGBA img) = height img" "pixels (as_RGBA img) = pixels img"
  by (simp_all add: as_RGBA_def convert_RGBA_def)

lemma wf_as_RGBA: "wf_image (as_RGBA img) = wf_image img"
  by (simp add: wf_image_def as_RGBA_facts)

lemma has_content_as_RGBA: "has_content (as_RGBA img) t = has_content img t"
  by (simp add: has_content_def as_RGBA_facts)

lemma find_elements_no_content:
  assumes "files fs image_path = Some (ImageFile opened)"
    and "\<not> has_content opened 10"
  shows "find_elements fs image_path output_dir padding = Inr ([], fs)"
  using assms
  by (simp add: find_elements_def Image_open_def content_bounds_no_content has_content_as_RGBA)

lemma find_elements_content:
  assumes f: "files fs image_path = Some (ImageFile opened)"
    and wf: "wf_image opened" and hc0: "has_content opened 10"
    and pd: "0 < padding" and d: "output_dir \<noteq> []" and nf: "files fs output_dir = None"
  shows "\<exists>els fs'. find_elements fs image_path output_dir padding = Inr (els, fs')
          \<and> map el_name els
              = map name (define_ui_regions (width opened) (height opened))
          \<and> length els = 26 \<and> dir_exists fs' output_dir"
proof -
  let ?img = "as_RGBA opened"
  have wf': "wf_image ?img" using wf by (simp add: wf_as_RGBA)
  have hc: "has_content ?img 10" using hc0 by (simp add: has_content_as_RGBA)
  have sz: "0 < width ?img" "0 < height ?img" using has_content_size[OF wf' hc] by simp_all
  from content_bounds_content[OF wf' hc] obtain b where
    cb: "content_bounds ?img 10 = Inr (Some b)" by blast
  let ?fs1 = "fs\<lparr>dirs := insert output_dir (dirs fs)\<rparr>"
  have mk: "makedirs fs output_dir = Inr ?fs1" using d nf by (simp add: makedirs_def)
  have d1: "dir_exists ?fs1 output_dir" by (simp add: dir_exists_def)
  from extract_loop_Inr[OF wf' sz pd define_ui_regions_boxes d1, of "[]"] obtain els fs' where
    l: "extract_loop ?img output_dir padding (define_ui_regions (width ?img) (height ?img))
          [] ?fs1 = Inr (els, fs')" and
    m: "map el_name els = map name (define_ui_regions (width ?img) (height ?img))" and
    ds: "dirs fs' = dirs ?fs1"
    by auto
  have fe: "find_elements fs image_path output_dir padding = Inr (els, fs')"
    using f cb mk l by (simp add: find_elements_def Image_open_def Let_def)
  have "length (map el_name els) = 26" unfolding m by (simp add: length_define_ui_regions)
  then have len: "length els = 26" by simp
  have "dir_exists fs' output_dir" using ds by (simp add: dir_exists_def)
  then show ?thesis using fe m len by (simp add: as_RGBA_facts)
qed

subsection \<open>main\<close>

lemma box_in_image_start: "box_in_image img bx \<Longrightarrow> box_start_in_image img bx"
  by (cases bx) (auto simp: box_in_image_def box_start_in_image_def)

lemma padded_box_crop:
  assumes "box_in_image img (x, y, w, h)" and "0 \<le> padding"
  shows "\<exists>x1 y1 x2 y2 sub.
          padded_box img (x, y, w, h) padding = (x1, y1, x2, y2)
          \<and> x1 = max 0 (x - padding) \<and> y1 = max 0 (y - padding)
          \<and> x2 = min (int (width img)) (x + w + padding)
          \<and> y2 = min (int (height img)) (y + h + padding)
          \<and> 0 \<le> x1 \<and> x1 \<le> x \<and> x + w \<le> x2 \<and> x2 \<le> int (width img)
          \<and> 0 \<le> y1 \<and> y1 \<le> y \<and> y + h \<le> y2 \<and> y2 \<le> int (height img)
          \<and> crop img (x1, y1, x2, y2) = Inr sub
          \<and> width sub = nat (x2 - x1) \<and> height sub = nat (y2 - y1)
          \<and> (\<forall>r c. r < height sub \<longrightarrow> c < width sub \<longrightarrow>
                 nat y1 + r < height img \<and> nat x1 + c < width img \<and>
                 pixels sub ! r ! c = pixels img ! (nat y1 + r) ! (nat x1 + c))"
proof -
  let ?x1 = "max 0 (x - padding)" and ?y1 = "max 0 (y - padding)"
  let ?x2 = "min (int (width img)) (x + w + padding)"
  let ?y2 = "min (int (height img)) (y + h + padding)"
  have pb: "padded_box img (x, y, w, h) padding = (?x1, ?y1, ?x2, ?y2)"
    by (simp add: padded_box_def Let_def)
  have b: "0 \<le> x" "0 \<le> y" "0 \<le> w" "0 \<le> h" "x + w \<le> int (width img)"
    "y + h \<le> int (height img)"
    using assms(1) by (simp_all add: box_in_image_def)
  have bx: "0 \<le> ?x1" "?x1 \<le> x" "x + w \<le> ?x2" "?x2 \<le> int (width img)"
    using b assms(2) by simp_all
  have by': "0 \<le> ?y1" "?y1 \<le> y" "y + h \<le> ?y2" "?y2 \<le> int (height img)"
    using b assms(2) by simp_all
  have o: "?x1 \<le> ?x2" "?y1 \<le> ?y2" using bx by' b by linarith+
  from crop_in_image[OF bx(1) o(1) bx(4) by'(1) o(2) by'(4)] obtain sub where
    "crop img (?x1, ?y1, ?x2, ?y2) = Inr sub"
    "width sub = nat (?x2 - ?x1)" "height sub = nat (?y2 - ?y1)"
    "\<forall>r c. r < height sub \<longrightarrow> c < width sub \<longrightarrow>
                 nat ?y1 + r < height img \<and> nat ?x1 + c < width img \<and>
                 pixels sub ! r ! c = pixels img ! (nat ?y1 + r) ! (nat ?x1 + c)"
    by blast
  then show ?thesis using pb bx by' by blast
qed

lemma main_no_content:
  assumes "files fs image_path = Some (ImageFile opened)"
    and "\<not> has_content opened 10"
  shows "main fs [script, image_path, output_dir]
         = dump_json fs output_dir (path_join output_dir ''metadata.json'')
             \<lparr>source = image_path, elements = [], total = 0\<rparr>"
  using find_elements_no_content[OF assms, of output_dir 20] by (simp add: main_def)

lemma main_total:
  assumes "main fs [script, image_path, output_dir] = Inr fs'"
  shows "\<exists>m. files fs' (path_join output_dir ''metadata.json'') = Some (JsonFile m)
          \<and> source m = image_path \<and> total m = length (elements m)"
  using assms
  by (auto simp: main_def dump_json_def Let_def split: sum.splits prod.splits if_splits)

lemma no_content_clear_sheet: "\<not> has_content clear_sheet 10"
  by (simp add: has_content_def clear_sheet_def clear_px_def band3_def list_ex_iff)

lemma main_content:
  assumes f: "files fs image_path = Some (ImageFile opened)"
    and wf: "wf_image opened" and hc: "has_content opened 10"
    and d: "output_dir \<noteq> []" and nf: "files fs output_dir = None"
  shows "\<exists>fs' m. main fs [script, image_path, output_dir] = Inr fs'
          \<and> files fs' (path_join output_dir ''metadata.json'') = Some (JsonFile m)
          \<and> length (elements m) = 26 \<and> total m = 26"
proof -
  from find_elements_content[OF f wf hc _ d nf, of 20] obtain els fs1 where
    fe: "find_elements fs image_path output_dir 20 = Inr (els, fs1)" and
    len: "length els = 26" and de: "dir_exists fs1 output_dir"
    by auto
  let ?m = "\<lparr>source = image_path, elements = els, total = length els\<rparr>"
  let ?p = "path_join output_dir ''metadata.json''"
  have "main fs [script, image_path, output_dir] = Inr (fs1\<lparr>files := (files fs1)(?p \<mapsto> JsonFile ?m)\<rparr>)"
    using fe de by (simp add: main_def dump_json_def Let_def)
  then show ?thesis using len by simp
qed


text \<open>
  In the loop, a region whose padded crop shows nothing is saved as that crop, uncropped.
\<close>

lemma extract_element_no_content:
  assumes "crop img (padded_box img (box element) padding) = Inr sub"
    and "\<not> has_content sub 10" and "dir_exists fs output_dir"
    and "0 < width sub" and "0 < height sub"
  shows "extract_element img output_dir padding fs element
         = Inr (\<lparr>el_name = name element, original_box = box element,
                  cropped_size = (width sub, height sub),
                  el_file = path_join output_dir (name element @ ''.png'')\<rparr>,
                fs\<lparr>files := (files fs)(path_join output_dir (name element @ ''.png'')
                     \<mapsto> ImageFile sub)\<rparr>)"
  using assms by (simp add: extract_element_def autocrop_no_content save_def Let_def)

section \<open>The claims\<close>

text \<open>
  C1. For an image with at least one pixel whose alpha exceeds the threshold, the bounds
  computation returns a rectangle: its first and last row are the first and the last row
  that hold a visible pixel, its first and last column the first and the last such column,
  both ends included. Every visible pixel lies inside, and each of the four bounding rows
  and columns holds a visible pixel, so no row or column can be taken away.
\<close>

theorem content_bounds_spans_content:
  assumes "wf_image img" and "has_content img t"
  shows "\<exists>row_min row_max col_min col_max.
          content_bounds img t = Inr (Some (row_min, row_max, col_min, col_max))
          \<and> (\<exists>c. visible_at img t row_min c) \<and> (\<exists>c. visible_at img t row_max c)
          \<and> (\<exists>r. visible_at img t r col_min) \<and> (\<exists>r. visible_at img t r col_max)
          \<and> (\<forall>r c. visible_at img t r c \<longrightarrow>
                 row_min \<le> r \<and> r \<le> row_max \<and> col_min \<le> c \<and> c \<le> col_max)"
  using assms by (rule content_bounds_content)

theorem content_bounds_spans_content_witness:
  "wf_image dot_image \<and> has_content dot_image 10 \<and>
   (\<exists>row_min row_max col_min col_max.
      content_bounds dot_image 10 = Inr (Some (row_min, row_max, col_min, col_max))
      \<and> (\<exists>c. visible_at dot_image 10 row_min c) \<and> (\<exists>c. visible_at dot_image 10 row_max c)
      \<and> (\<exists>r. visible_at dot_image 10 r col_min) \<and> (\<exists>r. visible_at dot_image 10 r col_max)
      \<and> (\<forall>r c. visible_at dot_image 10 r c \<longrightarrow>
             row_min \<le> r \<and> r \<le> row_max \<and> col_min \<le> c \<and> c \<le> col_max))"
proof -
  have w: "wf_image dot_image" by (simp add: wf_image_def dot_image_def)
  have h: "has_content dot_image 10"
    by (simp add: has_content_def dot_image_def solid_px_def clear_px_def band3_def)
  show ?thesis using w h content_bounds_spans_content [OF w h] by simp
qed

text \<open>
  C2. When no pixel's alpha exceeds the threshold the bounds computation takes its early
  return, which is a result of its own and no error: it is returned exactly when the image
  has no content, so the caller tells it from a rectangle.
\<close>

theorem content_bounds_none_iff:
  assumes "wf_image img"
  shows "(content_bounds img t = Inr None) = (\<not> has_content img t)"
proof (cases "has_content img t")
  case True
  with content_bounds_content [OF assms] show ?thesis by fastforce
next
  case False
  then show ?thesis by (simp add: content_bounds_no_content)
qed

theorem content_bounds_none_iff_witness:
  "wf_image clear_image \<and> \<not> has_content clear_image 10 \<and>
   content_bounds clear_image 10 = Inr None"
proof -
  have w: "wf_image clear_image" by (simp add: wf_image_def clear_image_def)
  have h: "\<not> has_content clear_image 10"
    by (simp add: has_content_def clear_image_def clear_px_def band3_def)
  show ?thesis using w h content_bounds_none_iff [OF w, of 10] by simp
qed

text \<open>
  C3. For an RGBA image with a visible pixel, \<open>autocrop_transparency\<close> returns the crop
  of the box (col_min, row_min, col_max + 1, row_max + 1): the exclusive end of the crop is
  the last index plus one. The result is col_max - col_min + 1 wide and
  row_max - row_min + 1 high, and its pixels are those of the rectangle.
\<close>

theorem autocrop_crops_inclusive_bounds:
  assumes "wf_image img" and "mode img = ''RGBA''" and "has_content img t"
  shows "\<exists>row_min row_max col_min col_max img'.
          content_bounds img t = Inr (Some (row_min, row_max, col_min, col_max))
          \<and> autocrop_transparency img t = Inr img'
          \<and> crop img (int col_min, int row_min, int col_max + 1, int row_max + 1) = Inr img'
          \<and> width img' = col_max - col_min + 1 \<and> height img' = row_max - row_min + 1
          \<and> wf_image img'
          \<and> (\<forall>r c. r < height img' \<longrightarrow> c < width img' \<longrightarrow>
                 pixels img' ! r ! c = pixels img ! (row_min + r) ! (col_min + c))"
proof -
  from autocrop_content [OF assms] obtain r0 r1 c0 c1 a where
    "content_bounds img t = Inr (Some (r0, r1, c0, c1))"
    "autocrop_transparency img t = Inr a"
    "crop img (int c0, int r0, int c1 + 1, int r1 + 1) = Inr a"
    "width a = c1 - c0 + 1" "height a = r1 - r0 + 1" "wf_image a"
    "\<forall>r c. r < height a \<longrightarrow> c < width a \<longrightarrow> pixels a ! r ! c = pixels img ! (r0 + r) ! (c0 + c)"
    by blast
  then show ?thesis by blast
qed

theorem autocrop_crops_inclusive_bounds_witness:
  "wf_image dot_image \<and> mode dot_image = ''RGBA'' \<and> has_content dot_image 10 \<and>
   (\<exists>row_min row_max col_min col_max img'.
      content_bounds dot_image 10 = Inr (Some (row_min, row_max, col_min, col_max))
      \<and> autocrop_transparency dot_image 10 = Inr img'
      \<and> crop dot_image (int col_min, int row_min, int col_max + 1, int row_max + 1) = Inr img'
      \<and> width img' = col_max - col_min + 1 \<and> height img' = row_max - row_min + 1
      \<and> wf_image img'
      \<and> (\<forall>r c. r < height img' \<longrightarrow> c < width img' \<longrightarrow>
             pixels img' ! r ! c = pixels dot_image ! (row_min + r) ! (col_min + c)))"
proof -
  have w: "wf_image dot_image" by (simp add: wf_image_def dot_image_def)
  have m: "mode dot_image = ''RGBA''" by (simp add: dot_image_def)
  have h: "has_content dot_image 10"
    by (simp add: has_content_def dot_image_def solid_px_def clear_px_def band3_def)
  show ?thesis using w m h autocrop_crops_inclusive_bounds [OF w m h] by simp
qed

text \<open>
  C4. When no pixel of the image (the padded crop of a region, in \<open>find_elements\<close>) has
  an alpha above the threshold, \<open>autocrop_transparency\<close> returns the image it was given,
  unchanged: it raises nothing and crops nothing.
\<close>

theorem autocrop_keeps_empty_image:
  assumes "\<not> has_content img t"
  shows "autocrop_transparency img t = Inr img"
  using assms by (rule autocrop_no_content)

theorem autocrop_keeps_empty_image_witness:
  "\<not> has_content clear_image 10 \<and> autocrop_transparency clear_image 10 = Inr clear_image"
proof -
  have h: "\<not> has_content clear_image 10"
    by (simp add: has_content_def clear_image_def clear_px_def band3_def)
  show ?thesis using h autocrop_keeps_empty_image [OF h] by simp
qed

text \<open>
  C5. \<open>autocrop_transparency\<close> is idempotent: it returns an image, and applied to that
  image it returns the same image again.
\<close>

theorem autocrop_idempotent:
  assumes "wf_image img"
  shows "\<exists>a. autocrop_transparency img t = Inr a \<and> autocrop_transparency a t = Inr a"
  using assms by (rule autocrop_idem)

theorem autocrop_idempotent_witness:
  "wf_image dot_image \<and>
   (\<exists>a. autocrop_transparency dot_image 10 = Inr a \<and> autocrop_transparency a 10 = Inr a)"
proof -
  have w: "wf_image dot_image" by (simp add: wf_image_def dot_image_def)
  show ?thesis using w autocrop_idempotent [OF w, of 10] by simp
qed

text \<open>
  C8. On the 100 by 100 image with the opaque 10 by 10 square of rows and columns 40 to 49,
  at threshold 10, the bounds are row 40 to row 49 and column 40 to column 49, both ends
  included: (40, 40, 49, 49). The crop box, whose end is exclusive, is (40, 40, 50, 50), and
  the crop is 10 wide and 10 high, which is (40, 40, 10, 10) as x, y, width and height.
\<close>

theorem square_image_scenario:
  "content_bounds square_image 10 = Inr (Some (40, 49, 40, 49)) \<and>
   autocrop_transparency square_image 10 = crop square_image (40, 40, 50, 50) \<and>
   (\<exists>a. autocrop_transparency square_image 10 = Inr a \<and> width a = 10 \<and> height a = 10)"
proof -
  have m: "mode square_image = ''RGBA''" by (simp add: square_image_def)
  have a: "autocrop_transparency square_image 10 = crop square_image (40, 40, 50, 50)"
    using m by (simp add: autocrop_transparency_def square_image_bounds)
  have "\<exists>a. crop square_image (40, 40, 50, 50) = Inr a \<and> width a = 10 \<and> height a = 10"
    by (simp add: crop_def)
  then show ?thesis using a by (simp add: square_image_bounds)
qed

theorem square_image_scenario_witness:
  "has_content square_image 10 \<and> mode square_image = ''RGBA'' \<and>
   content_bounds square_image 10 = Inr (Some (40, 49, 40, 49)) \<and>
   autocrop_transparency square_image 10 = crop square_image (40, 40, 50, 50)"
proof -
  have h: "has_content square_image 10"
    by (simp add: has_content_def square_image_def solid_px_def clear_px_def band3_def
        list_ex_iff)
  have m: "mode square_image = ''RGBA''" by (simp add: square_image_def)
  show ?thesis using h m square_image_scenario by simp
qed

text \<open>
  The bounds with both ends included are not (40, 40, 50, 50): that rectangle would be 11
  pixels wide and high.
\<close>

theorem square_image_inclusive_bounds_counterexample:
  "content_bounds square_image 10 \<noteq> Inr (Some (40, 50, 40, 50))"
  by (simp add: square_image_bounds)

text \<open>
  C10. An image whose mode is not RGBA is returned unchanged by
  \<open>autocrop_transparency\<close>, whatever its pixels are: it is not taken for opaque content
  and cropped. The conversion to RGBA is the loader's, at the head of \<open>find_elements\<close>.
\<close>

theorem autocrop_ignores_other_modes:
  assumes "mode img \<noteq> ''RGBA''"
  shows "autocrop_transparency img t = Inr img \<and> mode (as_RGBA img) = ''RGBA''"
  using assms by (simp add: autocrop_transparency_def as_RGBA_def convert_RGBA_def)

theorem autocrop_ignores_other_modes_witness:
  "mode rgb_image \<noteq> ''RGBA'' \<and> autocrop_transparency rgb_image 10 = Inr rgb_image \<and>
   mode (as_RGBA rgb_image) = ''RGBA''"
proof -
  have m: "mode rgb_image \<noteq> ''RGBA''" by (simp add: rgb_image_def)
  show ?thesis using m autocrop_ignores_other_modes [OF m] by simp
qed

text \<open>
  C6. For a box within the image and a padding that is not negative, lines 64 to 70 of
  \<open>find_elements\<close> grow the box by the padding on each side and cut it to the image:
  the box that is cropped starts at \<open>max 0 (x - padding)\<close> and ends at
  \<open>min width (x + w + padding)\<close>, and likewise in y. It holds the box it came from, it
  lies inside the image, and every pixel of the crop is a pixel of the image.
\<close>

theorem padded_box_within_image:
  assumes "box_in_image img (x, y, w, h)" and "0 \<le> padding"
  shows "\<exists>x1 y1 x2 y2 sub.
          padded_box img (x, y, w, h) padding = (x1, y1, x2, y2)
          \<and> x1 = max 0 (x - padding) \<and> y1 = max 0 (y - padding)
          \<and> x2 = min (int (width img)) (x + w + padding)
          \<and> y2 = min (int (height img)) (y + h + padding)
          \<and> 0 \<le> x1 \<and> x1 \<le> x \<and> x + w \<le> x2 \<and> x2 \<le> int (width img)
          \<and> 0 \<le> y1 \<and> y1 \<le> y \<and> y + h \<le> y2 \<and> y2 \<le> int (height img)
          \<and> crop img (x1, y1, x2, y2) = Inr sub
          \<and> width sub = nat (x2 - x1) \<and> height sub = nat (y2 - y1)
          \<and> (\<forall>r c. r < height sub \<longrightarrow> c < width sub \<longrightarrow>
                 nat y1 + r < height img \<and> nat x1 + c < width img \<and>
                 pixels sub ! r ! c = pixels img ! (nat y1 + r) ! (nat x1 + c))"
  using assms by (rule padded_box_crop)

theorem padded_box_within_image_witness:
  "box_in_image square_image (30, 30, 40, 40) \<and> (0::int) \<le> 20 \<and>
   padded_box square_image (30, 30, 40, 40) 20 = (10, 10, 90, 90) \<and>
   (\<exists>x1 y1 x2 y2 sub.
      padded_box square_image (30, 30, 40, 40) 20 = (x1, y1, x2, y2)
      \<and> 0 \<le> x1 \<and> x2 \<le> int (width square_image)
      \<and> 0 \<le> y1 \<and> y2 \<le> int (height square_image)
      \<and> crop square_image (x1, y1, x2, y2) = Inr sub
      \<and> width sub = nat (x2 - x1) \<and> height sub = nat (y2 - y1))"
proof -
  have b: "box_in_image square_image (30, 30, 40, 40)"
    by (simp add: box_in_image_def square_image_def)
  have p: "(0::int) \<le> 20" by simp
  have e: "padded_box square_image (30, 30, 40, 40) 20 = (10, 10, 90, 90)"
    by (simp add: padded_box_def square_image_def)
  from padded_box_within_image [OF b p] obtain x1 y1 x2 y2 sub where
    "padded_box square_image (30, 30, 40, 40) 20 = (x1, y1, x2, y2)"
    "0 \<le> x1" "x2 \<le> int (width square_image)" "0 \<le> y1" "y2 \<le> int (height square_image)"
    "crop square_image (x1, y1, x2, y2) = Inr sub"
    "width sub = nat (x2 - x1)" "height sub = nat (y2 - y1)"
    by blast
  then have "\<exists>x1 y1 x2 y2 sub.
      padded_box square_image (30, 30, 40, 40) 20 = (x1, y1, x2, y2)
      \<and> 0 \<le> x1 \<and> x2 \<le> int (width square_image)
      \<and> 0 \<le> y1 \<and> y2 \<le> int (height square_image)
      \<and> crop square_image (x1, y1, x2, y2) = Inr sub
      \<and> width sub = nat (x2 - x1) \<and> height sub = nat (y2 - y1)"
    by blast
  then show ?thesis using b p e by simp
qed

text \<open>
  C7. A fully transparent sheet with an output directory that does not exist yet:
  \<open>find_elements\<close> returns the empty list from line 44, before the directory is
  created at line 57, and \<open>main\<close> then fails with FileNotFoundError when it opens
  metadata.json in that directory. No metadata is written.
\<close>

theorem main_transparent_sheet_fresh_directory:
  "find_elements fresh_fs ''sheet.png'' ''out'' 20 = Inr ([], fresh_fs) \<and>
   main fresh_fs [''extract-ui-elements.py'', ''sheet.png'', ''out''] = Inl FileNotFoundError"
proof -
  have f: "files fresh_fs ''sheet.png'' = Some (ImageFile clear_sheet)"
    by (simp add: fresh_fs_def)
  have 1: "find_elements fresh_fs ''sheet.png'' ''out'' 20 = Inr ([], fresh_fs)"
    using f no_content_clear_sheet by (rule find_elements_no_content)
  have "main fresh_fs [''extract-ui-elements.py'', ''sheet.png'', ''out'']
        = dump_json fresh_fs ''out'' (path_join ''out'' ''metadata.json'')
             \<lparr>source = ''sheet.png'', elements = [], total = 0\<rparr>"
    using f no_content_clear_sheet by (rule main_no_content)
  also have "\<dots> = Inl FileNotFoundError"
    by (simp add: dump_json_def dir_exists_def fresh_fs_def)
  finally show ?thesis using 1 by simp
qed

theorem main_transparent_sheet_fresh_directory_witness:
  "files fresh_fs ''sheet.png'' = Some (ImageFile clear_sheet) \<and>
   \<not> has_content clear_sheet 10 \<and> \<not> dir_exists fresh_fs ''out'' \<and>
   main fresh_fs [''extract-ui-elements.py'', ''sheet.png'', ''out''] = Inl FileNotFoundError"
proof -
  have f: "files fresh_fs ''sheet.png'' = Some (ImageFile clear_sheet)"
    by (simp add: fresh_fs_def)
  have h: "\<not> has_content clear_sheet 10"
    by (simp add: has_content_def clear_sheet_def clear_px_def band3_def list_ex_iff)
  have d: "\<not> dir_exists fresh_fs ''out''" by (simp add: dir_exists_def fresh_fs_def)
  show ?thesis using f h d main_transparent_sheet_fresh_directory by simp
qed

text \<open>
  C9. For a sheet with a visible pixel, a positive padding and an output directory that can
  be created, \<open>find_elements\<close> returns one entry for each region of the table, in the
  order of the table, and the table has 26 regions; \<open>main\<close>, whose padding is 20,
  writes the metadata with a total of 26.
\<close>

theorem find_elements_extracts_every_region:
  assumes "files fs image_path = Some (ImageFile opened)"
    and "wf_image opened" and "has_content opened 10"
    and "0 < padding" and "output_dir \<noteq> []" and "files fs output_dir = None"
  shows "(\<exists>els fs'. find_elements fs image_path output_dir padding = Inr (els, fs')
            \<and> map el_name els = map name (define_ui_regions (width opened) (height opened))
            \<and> length els = 26)
         \<and> (\<exists>fs' m. main fs [script, image_path, output_dir] = Inr fs'
            \<and> files fs' (path_join output_dir ''metadata.json'') = Some (JsonFile m)
            \<and> length (elements m) = 26 \<and> total m = 26)"
proof -
  from find_elements_content [OF assms] have
    "\<exists>els fs'. find_elements fs image_path output_dir padding = Inr (els, fs')
            \<and> map el_name els = map name (define_ui_regions (width opened) (height opened))
            \<and> length els = 26"
    by blast
  moreover from main_content [OF assms(1-3) assms(5-6)] have
    "\<exists>fs' m. main fs [script, image_path, output_dir] = Inr fs'
            \<and> files fs' (path_join output_dir ''metadata.json'') = Some (JsonFile m)
            \<and> length (elements m) = 26 \<and> total m = 26"
    by blast
  ultimately show ?thesis by blast
qed

theorem find_elements_extracts_every_region_witness:
  "files dot_fs ''sheet.png'' = Some (ImageFile dot_image) \<and> wf_image dot_image \<and>
   has_content dot_image 10 \<and> (0::int) < 20 \<and> ''out'' \<noteq> [] \<and> files dot_fs ''out'' = None \<and>
   (\<exists>els fs'. find_elements dot_fs ''sheet.png'' ''out'' 20 = Inr (els, fs')
      \<and> map el_name els = map name (define_ui_regions (width dot_image) (height dot_image))
      \<and> length els = 26)"
proof -
  have f: "files dot_fs ''sheet.png'' = Some (ImageFile dot_image)" by (simp add: dot_fs_def)
  have w: "wf_image dot_image" by (simp add: wf_image_def dot_image_def)
  have h: "has_content dot_image 10"
    by (simp add: has_content_def dot_image_def solid_px_def clear_px_def band3_def)
  have p: "(0::int) < 20" by simp
  have d: "''out'' \<noteq> []" by simp
  have n: "files dot_fs ''out'' = None" by (simp add: dot_fs_def)
  show ?thesis
    using f w h n find_elements_extracts_every_region [OF f w h p d n, of "''script''"]
    by simp
qed

text \<open>
  The list that \<open>find_elements\<close> returns for the 3 by 3 sheet with one opaque pixel has
  26 entries, not 25.
\<close>

theorem find_elements_length_counterexample:
  "\<not> isl (find_elements dot_fs ''sheet.png'' ''out'' 20) \<and>
   length (fst (projr (find_elements dot_fs ''sheet.png'' ''out'' 20))) = 26"
proof -
  have f: "files dot_fs ''sheet.png'' = Some (ImageFile dot_image)" by (simp add: dot_fs_def)
  have nf: "files dot_fs ''out'' = None" by (simp add: dot_fs_def)
  from find_elements_content [OF f wf_dot_image has_content_dot_image _ _ nf, of 20]
  obtain els fs' where
    "find_elements dot_fs ''sheet.png'' ''out'' 20 = Inr (els, fs')" "length els = 26"
    by auto
  then show ?thesis by simp
qed


end
